theory Spec2Isabelle
  imports Complex_Main "HOL-Library.Word" "HOL-Library.Multiset"
begin

section \<open>The F1TelemetryRegistry contract\<close>

text \<open>
  Source: \<^verbatim>\<open>contracts/contracts/F1TelemetryRegistry.sol\<close> (Solidity 0.8.20).
  A \<^verbatim>\<open>uint256\<close> is a 256-bit word and a \<^verbatim>\<open>uint8\<close> an 8-bit word. Solidity 0.8
  checks \<^verbatim>\<open>+\<close>, \<^verbatim>\<open>*\<close> and \<^verbatim>\<open>++\<close>: an overflow panics with code 0x11 and the whole
  call reverts, leaving the storage as it was. A failed \<^verbatim>\<open>require\<close> reverts with its
  message; an array read out of range panics with code 0x32.
\<close>

type_synonym uint256 = "256 word"
type_synonym uint8 = "8 word"
type_synonym address = "160 word"

datatype error = Revert string | Panic nat

definition checked_add :: "uint256 \<Rightarrow> uint256 \<Rightarrow> error + uint256" where
  "checked_add a b = (if unat a + unat b < 2 ^ 256 then Inr (a + b) else Inl (Panic 17))"

definition checked_mul :: "uint256 \<Rightarrow> uint256 \<Rightarrow> error + uint256" where
  "checked_mul a b = (if unat a * unat b < 2 ^ 256 then Inr (a * b) else Inl (Panic 17))"

text \<open>
  The struct \<^verbatim>\<open>LapRecord\<close>. The fixed array \<^verbatim>\<open>uint256[3] sectorTimes\<close> is a triple.
  The field \<^verbatim>\<open>timestamp\<close> is \<open>blockTimestamp\<close> here, since the telemetry points of the
  dashboard have a field \<open>timestamp\<close> of their own.
\<close>

record LapRecord =
  lapNumber :: uint256
  lapTime :: uint256
  ipfsHash :: string
  performanceScore :: uint8
  sectorTimes :: "uint256 \<times> uint256 \<times> uint256"
  recorder :: address
  blockTimestamp :: uint256
  exists :: bool

text \<open>The value every key of a Solidity mapping holds before it is written.\<close>

definition zero_record :: LapRecord where
  "zero_record = \<lparr>lapNumber = 0, lapTime = 0, ipfsHash = [], performanceScore = 0,
     sectorTimes = (0, 0, 0), recorder = 0, blockTimestamp = 0, exists = False\<rparr>"

text \<open>The storage of the contract.\<close>

record registry =
  laps :: "uint256 \<Rightarrow> LapRecord"
  lapNumbers :: "uint256 list"
  totalLaps :: uint256
  owner :: address

datatype event =
    LapRecorded uint256 uint256 string uint8 address uint256
  | NewFastestLap uint256 uint256 address

definition constructor :: "address \<Rightarrow> registry" where
  "constructor sender =
     \<lparr>laps = (\<lambda>_. zero_record), lapNumbers = [], totalLaps = 0, owner = sender\<rparr>"

text \<open>
  \<^verbatim>\<open>getFastestLapTime\<close>: the loop \<^verbatim>\<open>for (i = 0; i < totalLaps; i++)\<close> over
  \<^verbatim>\<open>laps[lapNumbers[i]].lapTime\<close>. The counter stays below \<^verbatim>\<open>totalLaps\<close>, so its
  increment cannot overflow and it is a natural number here. The early return for
  \<^verbatim>\<open>totalLaps == 0\<close> gives the same value as the loop run zero times.
\<close>

function fastest_loop :: "registry \<Rightarrow> nat \<Rightarrow> uint256 \<Rightarrow> error + uint256" where
  "fastest_loop s i fastest =
     (if i < unat (totalLaps s) then
        (if i < length (lapNumbers s) then
           (if lapTime (laps s (lapNumbers s ! i)) < fastest
            then fastest_loop s (Suc i) (lapTime (laps s (lapNumbers s ! i)))
            else fastest_loop s (Suc i) fastest)
         else Inl (Panic 50))
      else Inr fastest)"
  by pat_completeness auto
termination
  by (relation "measure (\<lambda>(s, i, fastest). unat (totalLaps s) - i)") auto

definition getFastestLapTime :: "registry \<Rightarrow> error + uint256" where
  "getFastestLapTime s =
     (if totalLaps s = 0 then Inr (- 1) else fastest_loop s 0 (- 1))"

text \<open>
  \<^verbatim>\<open>recordLap\<close>, called by \<open>sender\<close> in a block with timestamp \<open>now\<close>. The modifier
  \<^verbatim>\<open>lapNotExists\<close> runs first, then the four \<^verbatim>\<open>require\<close>s in order; \<^verbatim>\<open>&&\<close> evaluates
  its right operand only when the left one holds. The increment \<^verbatim>\<open>totalLaps++\<close> is
  checked before the new storage is built: when it overflows the call reverts and nothing
  is written, as in the source, where it comes after the two writes. The result is the new
  storage and the events emitted, or the error that reverted the call.
\<close>

definition recordLap ::
  "address \<Rightarrow> uint256 \<Rightarrow> uint256 \<Rightarrow> uint256 \<Rightarrow> string \<Rightarrow> uint8 \<Rightarrow>
   uint256 \<times> uint256 \<times> uint256 \<Rightarrow> registry \<Rightarrow> error + registry \<times> event list" where
  "recordLap sender now lapNumber' lapTime' ipfsHash' performanceScore' sectorTimes' s =
     (if exists (laps s lapNumber') then Inl (Revert ''Lap already recorded'')
      else if \<not> 0 < lapTime' then Inl (Revert ''Lap time must be greater than 0'')
      else if \<not> performanceScore' \<le> 100 then Inl (Revert ''Performance score must be <= 100'')
      else if \<not> 0 < length ipfsHash' then Inl (Revert ''IPFS hash cannot be empty'')
      else
        (case sectorTimes' of (s0, s1, s2) \<Rightarrow>
        (case checked_add s0 s1 of Inl e \<Rightarrow> Inl e | Inr s01 \<Rightarrow>
        (case checked_add s01 s2 of Inl e \<Rightarrow> Inl e | Inr sectorSum \<Rightarrow>
        (case checked_mul lapTime' 99 of Inl e \<Rightarrow> Inl e | Inr t99 \<Rightarrow>
          if \<not> t99 div 100 \<le> sectorSum then Inl (Revert ''Sector times must sum to lap time'')
          else
        (case checked_mul lapTime' 101 of Inl e \<Rightarrow> Inl e | Inr t101 \<Rightarrow>
          if \<not> sectorSum \<le> t101 div 100 then Inl (Revert ''Sector times must sum to lap time'')
          else
        (case checked_add (totalLaps s) 1 of Inl e \<Rightarrow> Inl e | Inr total' \<Rightarrow>
          let s' = s\<lparr>laps := (laps s)(lapNumber' :=
                       \<lparr>lapNumber = lapNumber', lapTime = lapTime', ipfsHash = ipfsHash',
                        performanceScore = performanceScore', sectorTimes = sectorTimes',
                        recorder = sender, blockTimestamp = now, exists = True\<rparr>),
                     lapNumbers := lapNumbers s @ [lapNumber'],
                     totalLaps := total'\<rparr>;
              recorded = LapRecorded lapNumber' lapTime' ipfsHash' performanceScore' sender now
          in (case getFastestLapTime s' of Inl e \<Rightarrow> Inl e | Inr fastest \<Rightarrow>
                Inr (s', if lapTime' \<le> fastest
                         then [recorded, NewFastestLap lapNumber' lapTime' sender]
                         else [recorded])))))))))"

text \<open>
  The states of a deployed contract: the constructor's, and every state a successful
  \<^verbatim>\<open>recordLap\<close> leaves. No other function of the contract writes to storage.
\<close>

inductive reachable :: "registry \<Rightarrow> bool" where
  reachable_init: "reachable (constructor sender)"
| reachable_step:
    "reachable s \<Longrightarrow>
     recordLap sender now n t h p st s = Inr (s', evs) \<Longrightarrow> reachable s'"

text \<open>
  \<^verbatim>\<open>getLeaderboard\<close>. The memory array \<^verbatim>\<open>allLaps\<close> is allocated with \<^verbatim>\<open>totalLaps\<close>
  elements and \<^verbatim>\<open>leaderboard\<close> with \<^verbatim>\<open>resultCount\<close>, each a zero record, so every index
  the two sorting loops use (\<open>i < resultCount \<le> totalLaps\<close>, \<open>j < totalLaps\<close>,
  \<open>minIndex < totalLaps\<close>) is in range; only the read \<^verbatim>\<open>lapNumbers[i]\<close> of the storage
  array can panic. Elements of a memory array of structs are references, but no struct is
  written through one, so the arrays are lists of record values. The loop counters stay
  below \<^verbatim>\<open>totalLaps\<close> and are natural numbers.
\<close>

text \<open>The first loop: \<^verbatim>\<open>allLaps[i] = laps[lapNumbers[i]]\<close>.\<close>

function load_loop :: "registry \<Rightarrow> nat \<Rightarrow> LapRecord list \<Rightarrow> error + LapRecord list" where
  "load_loop s i allLaps =
     (if i < unat (totalLaps s) then
        (if i < length (lapNumbers s)
         then load_loop s (Suc i) (allLaps[i := laps s (lapNumbers s ! i)])
         else Inl (Panic 50))
      else Inr allLaps)"
  by pat_completeness auto
termination
  by (relation "measure (\<lambda>(s, i, allLaps). unat (totalLaps s) - i)") auto

text \<open>The inner loop, from \<^verbatim>\<open>j = i + 1\<close>: the index of the first smallest lap time.\<close>

function min_loop :: "LapRecord list \<Rightarrow> nat \<Rightarrow> nat \<Rightarrow> nat \<Rightarrow> nat" where
  "min_loop allLaps totalLaps' j minIndex =
     (if j < totalLaps' then
        (if lapTime (allLaps ! j) < lapTime (allLaps ! minIndex)
         then min_loop allLaps totalLaps' (Suc j) j
         else min_loop allLaps totalLaps' (Suc j) minIndex)
      else minIndex)"
  by pat_completeness auto
termination
  by (relation "measure (\<lambda>(allLaps, totalLaps', j, minIndex). totalLaps' - j)") auto

text \<open>The three assignments through \<^verbatim>\<open>temp\<close>.\<close>

definition swap :: "nat \<Rightarrow> nat \<Rightarrow> LapRecord list \<Rightarrow> LapRecord list" where
  "swap i minIndex allLaps =
     (let temp = allLaps ! i in (allLaps[i := allLaps ! minIndex])[minIndex := temp])"

text \<open>The outer loop: select, swap when \<^verbatim>\<open>minIndex != i\<close>, store \<^verbatim>\<open>leaderboard[i]\<close>.\<close>

function sort_loop ::
  "nat \<Rightarrow> nat \<Rightarrow> nat \<Rightarrow> LapRecord list \<Rightarrow> LapRecord list \<Rightarrow> LapRecord list" where
  "sort_loop resultCount totalLaps' i allLaps leaderboard =
     (if i < resultCount then
        (let minIndex = min_loop allLaps totalLaps' (Suc i) i;
             allLaps' = (if minIndex \<noteq> i then swap i minIndex allLaps else allLaps)
         in sort_loop resultCount totalLaps' (Suc i) allLaps' (leaderboard[i := allLaps' ! i]))
      else leaderboard)"
  by pat_completeness auto
termination
  by (relation "measure (\<lambda>(resultCount, totalLaps', i, allLaps, leaderboard). resultCount - i)") auto

definition getLeaderboard :: "uint256 \<Rightarrow> registry \<Rightarrow> error + LapRecord list" where
  "getLeaderboard count' s =
     (if \<not> (0 < count' \<and> count' \<le> 50) then Inl (Revert ''Count must be between 1 and 50'')
      else
        (let resultCount = (if totalLaps s < count' then totalLaps s else count');
             leaderboard = replicate (unat resultCount) zero_record
         in (case load_loop s 0 (replicate (unat (totalLaps s)) zero_record) of
               Inl e \<Rightarrow> Inl e
             | Inr allLaps \<Rightarrow>
                 Inr (sort_loop (unat resultCount) (unat (totalLaps s)) 0 allLaps leaderboard))))"

text \<open>The sum the contract checks against the lap time, as a natural number.\<close>

definition sectorSum :: "LapRecord \<Rightarrow> nat" where
  "sectorSum r = (case sectorTimes r of (s0, s1, s2) \<Rightarrow> unat s0 + unat s1 + unat s2)"

definition record_ok :: "LapRecord \<Rightarrow> bool" where
  "record_ok r \<longleftrightarrow>
     0 < lapTime r \<and> performanceScore r \<le> 100 \<and> ipfsHash r \<noteq> [] \<and>
     unat (lapTime r) * 99 div 100 \<le> sectorSum r \<and>
     sectorSum r \<le> unat (lapTime r) * 101 div 100 \<and>
     sectorSum r < 2 ^ 256 \<and> unat (lapTime r) * 101 < 2 ^ 256"

subsection \<open>Three recorded laps\<close>

text \<open>Concrete records and the storage after one, two and three calls of \<^verbatim>\<open>recordLap\<close>.\<close>

definition lap_a :: LapRecord where
  "lap_a = \<lparr>lapNumber = 12, lapTime = 88456, ipfsHash = ''QmA'', performanceScore = 87,
     sectorTimes = (29145, 30523, 28788), recorder = 7, blockTimestamp = 1700000000,
     exists = True\<rparr>"

definition lap_b :: LapRecord where
  "lap_b = \<lparr>lapNumber = 13, lapTime = 87900, ipfsHash = ''QmB'', performanceScore = 92,
     sectorTimes = (29000, 30000, 28900), recorder = 7, blockTimestamp = 1700000100,
     exists = True\<rparr>"

definition registry_a :: registry where
  "registry_a = \<lparr>laps = (\<lambda>_. zero_record)(12 := lap_a), lapNumbers = [12], totalLaps = 1,
     owner = 7\<rparr>"

definition registry_ab :: registry where
  "registry_ab = \<lparr>laps = (\<lambda>_. zero_record)(12 := lap_a, 13 := lap_b), lapNumbers = [12, 13],
     totalLaps = 2, owner = 7\<rparr>"

definition lap_c :: LapRecord where
  "lap_c = \<lparr>lapNumber = 14, lapTime = 88100, ipfsHash = ''QmC'', performanceScore = 90,
     sectorTimes = (29100, 30100, 28900), recorder = 9, blockTimestamp = 1700000200,
     exists = True\<rparr>"

definition registry_abc :: registry where
  "registry_abc = \<lparr>laps = (\<lambda>_. zero_record)(12 := lap_a, 13 := lap_b, 14 := lap_c),
     lapNumbers = [12, 13, 14], totalLaps = 3, owner = 7\<rparr>"

section \<open>The dashboard: telemetry points and sector times\<close>

text \<open>
  Source: \<^verbatim>\<open>frontend/types/telemetry.ts\<close>. A TypeScript \<^verbatim>\<open>number\<close> that holds a
  measurement is a real number here (no NaN, no infinity, no rounding); one that holds a
  lap, sector or gear number is an integer. \<^verbatim>\<open>number | null\<close> is an option.
\<close>

record TelemetryDataPoint =
  lap_number :: int
  sector :: int
  timestamp :: real
  speed :: real
  throttle :: real
  brake :: real
  steering_angle :: real
  gear :: int
  tire_compound :: string
  tire_wear :: real
  track_temperature :: real
  lap_time :: "real option"

text \<open>
  The interface \<^verbatim>\<open>DriverMistake\<close>; its fields \<^verbatim>\<open>sector\<close> and \<^verbatim>\<open>type\<close> are
  \<open>mistake_sector\<close> and \<open>mistake_type\<close> here. The union type of \<^verbatim>\<open>severity\<close> is a datatype.
\<close>

datatype Severity = low | medium | high

record DriverMistake =
  mistake_sector :: int
  mistake_type :: string
  severity :: Severity
  description :: string
  time_lost :: real

text \<open>
  Source: \<^verbatim>\<open>frontend/components/BlockchainVerification.tsx\<close>, the reduction
  \<^verbatim>\<open>sectorInfo\<close> over \<^verbatim>\<open>telemetry.data_points\<close>. The accumulator is an object keyed by
  sector, each entry \<^verbatim>\<open>{ start, end }\<close>; the field \<^verbatim>\<open>end\<close> is \<open>end'\<close> here. One step:
  an entry that is missing is created with both bounds at the point's timestamp, then
  \<^verbatim>\<open>end\<close> becomes \<^verbatim>\<open>Math.max(end, point.timestamp)\<close>.
\<close>

record SectorBounds =
  start :: real
  end' :: real

definition sectorInfo_step ::
  "(int \<rightharpoonup> SectorBounds) \<Rightarrow> TelemetryDataPoint \<Rightarrow> (int \<rightharpoonup> SectorBounds)" where
  "sectorInfo_step acc point =
     (let info = (case acc (sector point) of
                    None \<Rightarrow> \<lparr>start = timestamp point, end' = timestamp point\<rparr>
                  | Some info \<Rightarrow> info)
      in acc(sector point \<mapsto> info\<lparr>end' := max (end' info) (timestamp point)\<rparr>))"

definition sectorInfo :: "TelemetryDataPoint list \<Rightarrow> (int \<rightharpoonup> SectorBounds)" where
  "sectorInfo data_points = foldl sectorInfo_step Map.empty data_points"

text \<open>
  The banner's \<^verbatim>\<open>info ? info.end - info.start : 0\<close>, which the component evaluates for
  the sectors 1, 2 and 3.
\<close>

definition duration :: "(int \<rightharpoonup> SectorBounds) \<Rightarrow> int \<Rightarrow> real" where
  "duration info_map k = (case info_map k of Some info \<Rightarrow> end' info - start info | None \<Rightarrow> 0)"

text \<open>The points of a lap that carry the sector \<open>k\<close>, in the order of the list.\<close>

definition in_sector :: "int \<Rightarrow> TelemetryDataPoint list \<Rightarrow> TelemetryDataPoint list" where
  "in_sector k data_points = filter (\<lambda>p. sector p = k) data_points"

subsection \<open>A lap of six points\<close>

definition point :: "int \<Rightarrow> real \<Rightarrow> TelemetryDataPoint" where
  "point k t = \<lparr>lap_number = 12, sector = k, timestamp = t, speed = 210, throttle = 100,
     brake = 0, steering_angle = 0, gear = 7, tire_compound = ''soft'', tire_wear = 5,
     track_temperature = 42, lap_time = None\<rparr>"

definition lap_points :: "TelemetryDataPoint list" where
  "lap_points = [point 1 0, point 1 14.5, point 1 29.125, point 2 29.5, point 3 60, point 3 88.25]"

section \<open>The analysis core, from its specification\<close>

text \<open>
  The backend that scores a lap and runs the analysis is not among the sources. The
  definitions of this section follow the specification of the core, sections 4.4, 4.5,
  6 and 7, and \<^verbatim>\<open>docs/MOTORSPORT_CONCEPTS.md\<close>. Lap times and scores are real numbers.
\<close>

text \<open>
  Modelled from the spec: the severity add-on of the Performance Scorer, whose code is
  missing: low adds 1, medium 3 and high 6 on top of the flat 5 points per mistake.
\<close>

fun severity_penalty :: "Severity \<Rightarrow> real" where
  "severity_penalty low = 1"
| "severity_penalty medium = 3"
| "severity_penalty high = 6"

text \<open>
  Modelled from the spec: the Performance Scorer, whose code is missing.
  \<open>base = 100 - (|delta| / predicted_lap_time * 100) * 20\<close> with
  \<open>delta = actual - predicted\<close>; the penalties are 5 points for each mistake plus the
  severity add-ons; the final score is \<open>base - penalties\<close> clamped to \<open>[0, 100]\<close>.
\<close>

definition performance_score :: "real \<Rightarrow> real \<Rightarrow> DriverMistake list \<Rightarrow> real" where
  "performance_score actual_lap_time predicted_lap_time mistakes =
     (let delta = actual_lap_time - predicted_lap_time;
          base = 100 - (\<bar>delta\<bar> / predicted_lap_time * 100) * 20;
          penalties = 5 * real (length mistakes) +
                      (\<Sum>m\<leftarrow>mistakes. severity_penalty (severity m))
      in max 0 (min 100 (base - penalties)))"

text \<open>
  Modelled from the spec: the error taxonomy of the core (section 7), whose code is
  missing, and the class each error is surfaced as: not found (404) for \<open>LapNotFound\<close>,
  a data error distinct from not-found for \<open>EmptyLapData\<close>, bad request (400) for
  \<open>MissingLapTime\<close> and \<open>InvalidParameter\<close>.
\<close>

datatype analysis_error = LapNotFound | EmptyLapData | MissingLapTime | InvalidParameter

datatype error_class = not_found | data_error | bad_request

fun error_class_of :: "analysis_error \<Rightarrow> error_class" where
  "error_class_of LapNotFound = not_found"
| "error_class_of EmptyLapData = data_error"
| "error_class_of MissingLapTime = bad_request"
| "error_class_of InvalidParameter = bad_request"

text \<open>
  Modelled from the spec: the read of the actual lap time (section 6), whose code is
  missing. The time is the one the caller supplies, or else the first one embedded in
  the samples' \<open>lap_time\<close> field; it is absent when neither exists.
\<close>

definition recorded_lap_time :: "TelemetryDataPoint list \<Rightarrow> real option \<Rightarrow> real option" where
  "recorded_lap_time samples actual_lap_time =
     (case actual_lap_time of
        Some t \<Rightarrow> Some t
      | None \<Rightarrow> (case List.map_filter lap_time samples of [] \<Rightarrow> None | t # _ \<Rightarrow> Some t))"

text \<open>
  Modelled from the spec: the two availability checks of \<open>analyze\<close> (section 4.5),
  whose code is missing. No samples fail with \<open>EmptyLapData\<close>; samples without a lap
  time fail with \<open>MissingLapTime\<close>. The steps that follow (sector times, prediction,
  mistake detection, score, feedback) are the parameter \<open>pipeline\<close>.
\<close>

definition analyze ::
  "(int \<Rightarrow> TelemetryDataPoint list \<Rightarrow> real \<Rightarrow> analysis_error + 'a) \<Rightarrow>
   int \<Rightarrow> TelemetryDataPoint list \<Rightarrow> real option \<Rightarrow> analysis_error + 'a" where
  "analyze pipeline lap samples actual_lap_time =
     (if samples = [] then Inl EmptyLapData
      else (case recorded_lap_time samples actual_lap_time of
              None \<Rightarrow> Inl MissingLapTime
            | Some t \<Rightarrow> pipeline lap samples t))"

text \<open>
  Modelled from the spec: the boundary that fetches the samples of a lap (section 6),
  whose code is missing. The store knows a lap or not; an unknown lap is \<open>LapNotFound\<close>,
  a known one is analysed.
\<close>

definition analysis_of_lap ::
  "(int \<Rightarrow> TelemetryDataPoint list \<Rightarrow> real \<Rightarrow> analysis_error + 'a) \<Rightarrow>
   (int \<rightharpoonup> TelemetryDataPoint list) \<Rightarrow> int \<Rightarrow> real option \<Rightarrow> analysis_error + 'a" where
  "analysis_of_lap pipeline store lap actual_lap_time =
     (case store lap of
        None \<Rightarrow> Inl LapNotFound
      | Some samples \<Rightarrow> analyze pipeline lap samples actual_lap_time)"

subsection \<open>Sample mistakes and a pipeline for the examples\<close>

definition mistake :: "Severity \<Rightarrow> DriverMistake" where
  "mistake sev = \<lparr>mistake_sector = 2, mistake_type = ''late_braking'', severity = sev,
     description = ''Late braking detected in Sector 2'', time_lost = 0.2\<rparr>"

definition pass_lap_time ::
  "int \<Rightarrow> TelemetryDataPoint list \<Rightarrow> real \<Rightarrow> analysis_error + real" where
  "pass_lap_time lap samples t = Inr t"

section \<open>Properties of the registry\<close>

lemma checked_add_Inr:
  "checked_add a b = Inr c \<Longrightarrow> unat c = unat a + unat b \<and> unat a + unat b < 2 ^ 256"
  by (auto simp: checked_add_def unat_word_ariths split: if_splits)

lemma checked_mul_Inr:
  "checked_mul a b = Inr c \<Longrightarrow> unat c = unat a * unat b \<and> unat a * unat b < 2 ^ 256"
  by (auto simp: checked_mul_def unat_word_ariths split: if_splits)

lemma recordLap_Inr:
  assumes "recordLap sender now n t h p st s = Inr (s', evs)"
  shows "\<not> exists (laps s n)"
    and "laps s' = (laps s)(n := \<lparr>lapNumber = n, lapTime = t, ipfsHash = h,
           performanceScore = p, sectorTimes = st, recorder = sender, blockTimestamp = now,
           exists = True\<rparr>)"
    and "lapNumbers s' = lapNumbers s @ [n]"
    and "unat (totalLaps s') = unat (totalLaps s) + 1"
    and "owner s' = owner s"
  using assms
  by (auto simp: recordLap_def Let_def dest: checked_add_Inr split: if_splits sum.splits prod.splits)

lemma recordLap_Inr_ok:
  assumes "recordLap sender now n t h p st s = Inr (s', evs)"
  shows "record_ok (laps s' n)"
  using assms
  by (auto simp: recordLap_def Let_def record_ok_def sectorSum_def word_le_nat_alt unat_div
       dest!: checked_add_Inr checked_mul_Inr split: if_splits sum.splits prod.splits)

lemma reachable_total: "reachable s \<Longrightarrow> unat (totalLaps s) = length (lapNumbers s)"
proof (induction rule: reachable.induct)
  case (reachable_init sender)
  then show ?case by (simp add: constructor_def)
next
  case (reachable_step s sender now n t h p st s' evs)
  with recordLap_Inr(3,4) [OF reachable_step.hyps(2)] show ?case by simp
qed

lemma reachable_record_ok: "reachable s \<Longrightarrow> exists (laps s n) \<Longrightarrow> record_ok (laps s n)"
proof (induction arbitrary: n rule: reachable.induct)
  case (reachable_init sender)
  then show ?case by (simp add: constructor_def zero_record_def)
next
  case (reachable_step s sender now m t h p st s' evs)
  show ?case
  proof (cases "n = m")
    case True
    with reachable_step.hyps(2) show ?thesis by (simp add: recordLap_Inr_ok)
  next
    case False
    with reachable_step.prems recordLap_Inr(2) [OF reachable_step.hyps(2)]
    have "exists (laps s n)" and "laps s' n = laps s n" by simp_all
    with reachable_step.IH show ?thesis by simp
  qed
qed

lemma reachable_lapNumbers:
  "reachable s \<Longrightarrow> distinct (lapNumbers s) \<and> set (lapNumbers s) = {n. exists (laps s n)}"
proof (induction rule: reachable.induct)
  case (reachable_init sender)
  then show ?case by (simp add: constructor_def zero_record_def)
next
  case (reachable_step s sender now m t h p st s' evs)
  note r = recordLap_Inr [OF reachable_step.hyps(2)]
  from reachable_step.IH r(1) have "m \<notin> set (lapNumbers s)" by simp
  with reachable_step.IH r(2,3) show ?case by auto
qed

lemma recordLap_exists:
  "exists (laps s n) \<Longrightarrow>
   recordLap sender now n t h p st s = Inl (Revert ''Lap already recorded'')"
  by (simp add: recordLap_def)

lemma recordLap_frame:
  assumes "recordLap sender now m t h p st s = Inr (s', evs)" and "exists (laps s n)"
  shows "laps s' n = laps s n"
proof -
  from assms recordLap_Inr(1) [OF assms(1)] have "n \<noteq> m" by auto
  with recordLap_Inr(2) [OF assms(1)] show ?thesis by simp
qed

lemma record_a:
  "recordLap 7 1700000000 12 88456 ''QmA'' 87 (29145, 30523, 28788) (constructor 7) =
     Inr (registry_a, [LapRecorded 12 88456 ''QmA'' 87 7 1700000000, NewFastestLap 12 88456 7])"
  by (simp add: recordLap_def constructor_def zero_record_def checked_add_def checked_mul_def
      getFastestLapTime_def fastest_loop.simps registry_a_def lap_a_def Let_def)

lemma record_b:
  "recordLap 7 1700000100 13 87900 ''QmB'' 92 (29000, 30000, 28900) registry_a =
     Inr (registry_ab, [LapRecorded 13 87900 ''QmB'' 92 7 1700000100, NewFastestLap 13 87900 7])"
  by (simp add: recordLap_def zero_record_def checked_add_def checked_mul_def
      getFastestLapTime_def fastest_loop.simps registry_a_def registry_ab_def lap_a_def lap_b_def Let_def)

lemma reachable_a: "reachable registry_a"
  using reachable_step [OF reachable_init record_a] .

lemma reachable_ab: "reachable registry_ab"
  using reachable_step [OF reachable_a record_b] .

lemma load_loop_spec:
  assumes "length (lapNumbers s) = unat (totalLaps s)" and "length a = unat (totalLaps s)"
    and "i \<le> unat (totalLaps s)" and "\<forall>k<i. a ! k = laps s (lapNumbers s ! k)"
  shows "load_loop s i a = Inr (map (laps s) (lapNumbers s))"
  using assms
proof (induction s i a rule: load_loop.induct)
  case (1 s i a)
  show ?case
  proof (cases "i < unat (totalLaps s)")
    case True
    have "\<forall>k<Suc i. a[i := laps s (lapNumbers s ! i)] ! k = laps s (lapNumbers s ! k)"
      using "1.prems" True by (auto simp: nth_list_update less_Suc_eq)
    with "1.IH" [OF True] "1.prems" True show ?thesis
      by (simp add: load_loop.simps [of s i a])
  next
    case False
    with "1.prems" have "i = length a" and "length a = length (lapNumbers s)" by simp_all
    with "1.prems" have "a = map (laps s) (lapNumbers s)"
      by (intro nth_equalityI) simp_all
    with False show ?thesis by (simp add: load_loop.simps [of s i a])
  qed
qed

lemma min_loop_spec:
  assumes "i \<le> m" and "m < j" and "j \<le> n"
    and "\<forall>k. i \<le> k \<and> k < j \<longrightarrow> lapTime (a ! m) \<le> lapTime (a ! k)"
  shows "i \<le> min_loop a n j m \<and> min_loop a n j m < n \<and>
         (\<forall>k. i \<le> k \<and> k < n \<longrightarrow> lapTime (a ! min_loop a n j m) \<le> lapTime (a ! k))"
  using assms
proof (induction a n j m rule: min_loop.induct)
  case (1 a n j m)
  show ?case
  proof (cases "j < n")
    case False
    with "1.prems" have "j = n" by simp
    with "1.prems" False show ?thesis by (simp add: min_loop.simps [of a n j m])
  next
    case True
    show ?thesis
    proof (cases "lapTime (a ! j) < lapTime (a ! m)")
      case less: True
      have "\<forall>k. i \<le> k \<and> k < Suc j \<longrightarrow> lapTime (a ! j) \<le> lapTime (a ! k)"
      proof (intro allI impI)
        fix k assume k: "i \<le> k \<and> k < Suc j"
        show "lapTime (a ! j) \<le> lapTime (a ! k)"
        proof (cases "k = j")
          case True then show ?thesis by simp
        next
          case False
          with k "1.prems"(4) have "lapTime (a ! m) \<le> lapTime (a ! k)" by simp
          with less show ?thesis by simp
        qed
      qed
      with "1.IH"(1) [OF True less] "1.prems" True less show ?thesis
        by (simp add: min_loop.simps [of a n j m])
    next
      case geq: False
      have "\<forall>k. i \<le> k \<and> k < Suc j \<longrightarrow> lapTime (a ! m) \<le> lapTime (a ! k)"
        using "1.prems"(4) geq by (auto simp: less_Suc_eq)
      with "1.IH"(2) [OF True geq] "1.prems" True geq show ?thesis
        by (simp add: min_loop.simps [of a n j m])
    qed
  qed
qed

lemma swap_props:
  assumes "i \<le> r" and "r < length a"
  shows "length (if r \<noteq> i then swap i r a else a) = length a"
    and "mset (if r \<noteq> i then swap i r a else a) = mset a"
    and "(if r \<noteq> i then swap i r a else a) ! i = a ! r"
    and "\<forall>p<i. (if r \<noteq> i then swap i r a else a) ! p = a ! p"
    and "\<forall>q. i \<le> q \<and> q < length a \<longrightarrow>
           (\<exists>k. i \<le> k \<and> k < length a \<and> (if r \<noteq> i then swap i r a else a) ! q = a ! k)"
proof -
  from assms have i: "i < length a" by simp
  show "length (if r \<noteq> i then swap i r a else a) = length a"
    by (simp add: swap_def)
  show "mset (if r \<noteq> i then swap i r a else a) = mset a"
    using mset_swap [OF assms(2) i] by (simp add: swap_def)
  show "(if r \<noteq> i then swap i r a else a) ! i = a ! r"
    using assms i by (simp add: swap_def nth_list_update)
  show "\<forall>p<i. (if r \<noteq> i then swap i r a else a) ! p = a ! p"
    using assms i by (simp add: swap_def nth_list_update)
  show "\<forall>q. i \<le> q \<and> q < length a \<longrightarrow>
           (\<exists>k. i \<le> k \<and> k < length a \<and> (if r \<noteq> i then swap i r a else a) ! q = a ! k)"
  proof (intro allI impI)
    fix q assume q: "i \<le> q \<and> q < length a"
    consider "q = i" | "q = r" "q \<noteq> i" | "q \<noteq> i" "q \<noteq> r" by blast
    then show "\<exists>k. i \<le> k \<and> k < length a \<and> (if r \<noteq> i then swap i r a else a) ! q = a ! k"
    proof cases
      case 1
      with assms i show ?thesis
        by (intro exI [of _ r]) (simp add: swap_def nth_list_update)
    next
      case 2
      with assms i show ?thesis
        by (intro exI [of _ i]) (simp add: swap_def nth_list_update)
    next
      case 3
      with q show ?thesis
        by (intro exI [of _ q]) (simp add: swap_def nth_list_update)
    qed
  qed
qed

lemma sort_loop_spec:
  assumes "length a = n" and "rc \<le> n" and "length lb = rc" and "i \<le> rc"
    and "\<forall>p<i. lb ! p = a ! p"
    and "\<forall>p q. p < i \<and> p \<le> q \<and> q < n \<longrightarrow> lapTime (a ! p) \<le> lapTime (a ! q)"
  shows "\<exists>a'. length a' = n \<and> mset a' = mset a \<and> sort_loop rc n i a lb = take rc a' \<and>
           (\<forall>p q. p < rc \<and> p \<le> q \<and> q < n \<longrightarrow> lapTime (a' ! p) \<le> lapTime (a' ! q))"
  using assms
proof (induction rc n i a lb rule: sort_loop.induct)
  case (1 rc n i a lb)
  show ?case
  proof (cases "i < rc")
    case False
    with "1.prems" have "i = rc" by simp
    with "1.prems" have "lb = take rc a"
      by (intro nth_equalityI) simp_all
    with False "1.prems" \<open>i = rc\<close> show ?thesis
      by (intro exI [of _ a]) (simp add: sort_loop.simps [of rc n i a lb])
  next
    case True
    define r where "r = min_loop a n (Suc i) i"
    define a1 where "a1 = (if r \<noteq> i then swap i r a else a)"
    define lb1 where "lb1 = lb[i := a1 ! i]"
    from True "1.prems" have "Suc i \<le> n" by simp
    moreover have "\<forall>k. i \<le> k \<and> k < Suc i \<longrightarrow> lapTime (a ! i) \<le> lapTime (a ! k)"
      by (auto simp: less_Suc_eq)
    ultimately have "i \<le> r \<and> r < n \<and>
        (\<forall>k. i \<le> k \<and> k < n \<longrightarrow> lapTime (a ! r) \<le> lapTime (a ! k))"
      unfolding r_def by (intro min_loop_spec) simp_all
    then have r: "i \<le> r" "r < n"
      and rmin: "\<forall>k. i \<le> k \<and> k < n \<longrightarrow> lapTime (a ! r) \<le> lapTime (a ! k)"
      by blast+
    from r "1.prems"(1) have rl: "r < length a" by simp
    note sp = swap_props [OF r(1) rl, folded a1_def]
    have len1: "length a1 = n" using sp(1) "1.prems"(1) by simp
    have lb1: "\<forall>p<Suc i. lb1 ! p = a1 ! p"
    proof (intro allI impI)
      fix p assume "p < Suc i"
      then consider "p = i" | "p < i" by linarith
      then show "lb1 ! p = a1 ! p"
      proof cases
        case 1
        with True "1.prems"(3) show ?thesis by (simp add: lb1_def)
      next
        case 2
        with "1.prems"(5) sp(4) show ?thesis by (simp add: lb1_def)
      qed
    qed
    have inv1: "\<forall>p q. p < Suc i \<and> p \<le> q \<and> q < n \<longrightarrow> lapTime (a1 ! p) \<le> lapTime (a1 ! q)"
    proof (intro allI impI)
      fix p q assume pq: "p < Suc i \<and> p \<le> q \<and> q < n"
      show "lapTime (a1 ! p) \<le> lapTime (a1 ! q)"
      proof (cases "q < i")
        case True
        with pq sp(4) "1.prems"(6) show ?thesis by simp
      next
        case False
        with pq "1.prems"(1) have "i \<le> q \<and> q < length a" by simp
        with sp(5) "1.prems"(1) obtain k where k: "i \<le> k" "k < n" "a1 ! q = a ! k"
          by blast
        show ?thesis
        proof (cases "p = i")
          case True
          with sp(3) k rmin show ?thesis by simp
        next
          case False
          with pq have "p < i" by simp
          with sp(4) k "1.prems"(6) show ?thesis by simp
        qed
      qed
    qed
    have "length lb1 = rc" using "1.prems"(3) by (simp add: lb1_def)
    moreover from True have "Suc i \<le> rc" by simp
    ultimately have "\<exists>a'. length a' = n \<and> mset a' = mset a1 \<and>
        sort_loop rc n (Suc i) a1 lb1 = take rc a' \<and>
        (\<forall>p q. p < rc \<and> p \<le> q \<and> q < n \<longrightarrow> lapTime (a' ! p) \<le> lapTime (a' ! q))"
      unfolding lb1_def
      by (intro "1.IH" [OF True r_def a1_def len1 "1.prems"(2) _ _ lb1 [unfolded lb1_def] inv1])
    then obtain a' where a': "length a' = n" "mset a' = mset a1"
      "sort_loop rc n (Suc i) a1 lb1 = take rc a'"
      "\<forall>p q. p < rc \<and> p \<le> q \<and> q < n \<longrightarrow> lapTime (a' ! p) \<le> lapTime (a' ! q)"
      by blast
    have "sort_loop rc n i a lb = sort_loop rc n (Suc i) a1 lb1"
      unfolding r_def a1_def lb1_def
      by (subst sort_loop.simps) (simp only: True if_True Let_def)
    with a' sp(2) show ?thesis by (intro exI [of _ a']) simp
  qed
qed

lemma getLeaderboard_sorted:
  assumes len: "unat (totalLaps s) = length (lapNumbers s)" and c: "0 < c" "c \<le> 50"
  shows "\<exists>lb rest. getLeaderboard c s = Inr lb \<and>
           length lb = min (unat c) (unat (totalLaps s)) \<and>
           sorted (map lapTime lb) \<and>
           mset (lb @ rest) = mset (map (laps s) (lapNumbers s)) \<and>
           (\<forall>x\<in>set lb. \<forall>y\<in>set rest. lapTime x \<le> lapTime y)"
proof -
  define n where "n = unat (totalLaps s)"
  define rc where "rc = unat (if totalLaps s < c then totalLaps s else c)"
  define a where "a = map (laps s) (lapNumbers s)"
  have rc: "rc = min (unat c) n"
    by (simp add: rc_def n_def word_less_nat_alt min_def)
  have load: "load_loop s 0 (replicate n zero_record) = Inr a"
    unfolding a_def n_def using len by (intro load_loop_spec) simp_all
  have "\<exists>a'. length a' = n \<and> mset a' = mset a \<and>
          sort_loop rc n 0 a (replicate rc zero_record) = take rc a' \<and>
          (\<forall>p q. p < rc \<and> p \<le> q \<and> q < n \<longrightarrow> lapTime (a' ! p) \<le> lapTime (a' ! q))"
    using len rc by (intro sort_loop_spec) (simp_all add: a_def n_def)
  then obtain a' where a': "length a' = n" "mset a' = mset a"
    "sort_loop rc n 0 a (replicate rc zero_record) = take rc a'"
    and ord: "\<And>p q. p < rc \<Longrightarrow> p \<le> q \<Longrightarrow> q < n \<Longrightarrow> lapTime (a' ! p) \<le> lapTime (a' ! q)"
    by blast
  have res: "getLeaderboard c s = Inr (take rc a')"
    using c load a'(3) by (simp add: getLeaderboard_def Let_def n_def rc_def)
  have l: "length (take rc a') = min (unat c) (unat (totalLaps s))"
    using a'(1) rc by (simp add: n_def)
  have srt: "sorted (map lapTime (take rc a'))"
    unfolding sorted_iff_nth_mono using a'(1) rc ord by simp
  have m: "mset (take rc a' @ drop rc a') = mset (map (laps s) (lapNumbers s))"
    using a'(2) by (simp add: a_def)
  have sep: "\<forall>x\<in>set (take rc a'). \<forall>y\<in>set (drop rc a'). lapTime x \<le> lapTime y"
  proof (intro ballI)
    fix x y assume "x \<in> set (take rc a')" and "y \<in> set (drop rc a')"
    then obtain p q where p: "p < length (take rc a')" "x = take rc a' ! p"
      and q: "q < length (drop rc a')" "y = drop rc a' ! q"
      by (auto simp: in_set_conv_nth)
    from p a'(1) rc have "p < rc" "x = a' ! p" by simp_all
    moreover from q a'(1) rc have "rc + q < n" "y = a' ! (rc + q)" by simp_all
    ultimately show "lapTime x \<le> lapTime y" using ord [of p "rc + q"] by simp
  qed
  from res l srt m sep show ?thesis by blast
qed

lemma record_c:
  "recordLap 9 1700000200 14 88100 ''QmC'' 90 (29100, 30100, 28900) registry_ab =
     Inr (registry_abc, [LapRecorded 14 88100 ''QmC'' 90 9 1700000200])"
  by (simp add: recordLap_def zero_record_def checked_add_def checked_mul_def
      getFastestLapTime_def fastest_loop.simps registry_ab_def registry_abc_def
      lap_a_def lap_b_def lap_c_def Let_def)

lemma reachable_abc: "reachable registry_abc"
  using reachable_step [OF reachable_ab record_c] .

lemma leaderboard_abc: "getLeaderboard 2 registry_abc = Inr [lap_b, lap_c]"
  apply (simp add: getLeaderboard_def registry_abc_def load_loop.simps sort_loop.simps
      min_loop.simps swap_def Let_def lap_a_def lap_b_def lap_c_def zero_record_def)
  apply (simp add: numeral_2_eq_2)
  done

text \<open>
  C9: in every reachable state of the registry, every stored lap record with
  \<open>exists = true\<close> has a positive lap time, a performance score of at most 100, a
  non-empty IPFS hash, and sector times whose sum lies between \<open>lapTime * 99 / 100\<close>
  and \<open>lapTime * 101 / 100\<close>; \<^verbatim>\<open>recordLap\<close> reverts for a lap number that is already
  recorded, a successful \<^verbatim>\<open>recordLap\<close> leaves every recorded lap as it was, and
  \<open>totalLaps\<close> is the length of \<open>lapNumbers\<close>.
\<close>

theorem registry_invariant:
  "reachable s \<Longrightarrow>
     (\<forall>n. exists (laps s n) \<longrightarrow>
        0 < lapTime (laps s n) \<and> performanceScore (laps s n) \<le> 100 \<and>
        ipfsHash (laps s n) \<noteq> [] \<and>
        unat (lapTime (laps s n)) * 99 div 100 \<le> sectorSum (laps s n) \<and>
        sectorSum (laps s n) \<le> unat (lapTime (laps s n)) * 101 div 100 \<and>
        sectorSum (laps s n) < 2 ^ 256 \<and> unat (lapTime (laps s n)) * 101 < 2 ^ 256) \<and>
     (\<forall>n sender now t h p st. exists (laps s n) \<longrightarrow>
        recordLap sender now n t h p st s = Inl (Revert ''Lap already recorded'')) \<and>
     (\<forall>n sender now m t h p st s' evs.
        exists (laps s n) \<longrightarrow> recordLap sender now m t h p st s = Inr (s', evs) \<longrightarrow>
        laps s' n = laps s n) \<and>
     unat (totalLaps s) = length (lapNumbers s)"
  using reachable_record_ok [of s] reachable_total [of s] recordLap_exists [of s]
    recordLap_frame [of _ _ _ _ _ _ _ s]
  unfolding record_ok_def by blast

theorem registry_invariant_witness:
  "reachable registry_a \<and> exists (laps registry_a 12) \<and>
   0 < lapTime (laps registry_a 12) \<and> performanceScore (laps registry_a 12) \<le> 100 \<and>
   ipfsHash (laps registry_a 12) \<noteq> [] \<and>
   unat (lapTime (laps registry_a 12)) * 99 div 100 \<le> sectorSum (laps registry_a 12) \<and>
   sectorSum (laps registry_a 12) \<le> unat (lapTime (laps registry_a 12)) * 101 div 100 \<and>
   recordLap 7 1700000100 12 87900 ''QmB'' 92 (29000, 30000, 28900) registry_a =
     Inl (Revert ''Lap already recorded'') \<and>
   recordLap 7 1700000100 13 87900 ''QmB'' 92 (29000, 30000, 28900) registry_a =
     Inr (registry_ab, [LapRecorded 13 87900 ''QmB'' 92 7 1700000100, NewFastestLap 13 87900 7]) \<and>
   laps registry_ab 12 = laps registry_a 12 \<and>
   unat (totalLaps registry_a) = length (lapNumbers registry_a)"
proof -
  have e: "exists (laps registry_a 12)"
    by (simp add: registry_a_def lap_a_def)
  from registry_invariant [OF reachable_a] e record_b reachable_a show ?thesis
    by blast
qed

text \<open>
  C10: in a reachable state, \<^verbatim>\<open>getLeaderboard\<close> called with a count between 1 and 50
  returns \<open>min count totalLaps\<close> records, ordered by lap time, non-decreasing; they
  are recorded laps, and no recorded lap left out of the result has a smaller lap time
  than one in it. With a count of 0 or above 50 the call reverts.
\<close>

theorem getLeaderboard_top:
  "reachable s \<Longrightarrow>
     (if 0 < c \<and> c \<le> 50 then
        distinct (lapNumbers s) \<and> set (lapNumbers s) = {n. exists (laps s n)} \<and>
        (\<exists>lb rest. getLeaderboard c s = Inr lb \<and>
           length lb = min (unat c) (unat (totalLaps s)) \<and>
           sorted (map lapTime lb) \<and>
           mset (lb @ rest) = mset (map (laps s) (lapNumbers s)) \<and>
           (\<forall>x\<in>set lb. \<forall>y\<in>set rest. lapTime x \<le> lapTime y))
      else getLeaderboard c s = Inl (Revert ''Count must be between 1 and 50''))"
  using getLeaderboard_sorted [OF reachable_total, of s c] reachable_lapNumbers [of s]
  by (simp add: getLeaderboard_def)


theorem getLeaderboard_top_witness:
  "reachable registry_abc \<and> 0 < (2 :: uint256) \<and> (2 :: uint256) \<le> 50 \<and>
   getLeaderboard 2 registry_abc = Inr [lap_b, lap_c] \<and>
   length [lap_b, lap_c] = min (unat (2 :: uint256)) (unat (totalLaps registry_abc)) \<and>
   sorted (map lapTime [lap_b, lap_c]) \<and>
   (\<exists>rest. mset ([lap_b, lap_c] @ rest) =
      mset (map (laps registry_abc) (lapNumbers registry_abc))) \<and>
   getLeaderboard 0 registry_abc = Inl (Revert ''Count must be between 1 and 50'') \<and>
   getLeaderboard 51 registry_abc = Inl (Revert ''Count must be between 1 and 50'')"
proof -
  from getLeaderboard_top [OF reachable_abc, of 2] obtain lb rest
    where "getLeaderboard 2 registry_abc = Inr lb"
      and "length lb = min (unat (2 :: uint256)) (unat (totalLaps registry_abc))"
      and "sorted (map lapTime lb)"
      and "mset (lb @ rest) = mset (map (laps registry_abc) (lapNumbers registry_abc))"
    by auto
  moreover from this(1) have "lb = [lap_b, lap_c]"
    by (simp add: leaderboard_abc)
  moreover have "getLeaderboard 0 registry_abc = Inl (Revert ''Count must be between 1 and 50'')"
    using getLeaderboard_top [OF reachable_abc, of 0] by simp
  moreover have "getLeaderboard 51 registry_abc = Inl (Revert ''Count must be between 1 and 50'')"
    using getLeaderboard_top [OF reachable_abc, of 51] by simp
  ultimately show ?thesis
    using reachable_abc by auto
qed

section \<open>Properties of the sector times\<close>

lemma sectorInfo_snoc: "sectorInfo (ps @ [p]) = sectorInfo_step (sectorInfo ps) p"
  by (simp add: sectorInfo_def)

lemma sectorInfo_first_max:
  "sectorInfo ps k =
     (if in_sector k ps = [] then None
      else Some \<lparr>start = timestamp (hd (in_sector k ps)),
                 end' = Max (timestamp ` set (in_sector k ps))\<rparr>)"
proof (induction ps rule: rev_induct)
  case Nil
  then show ?case by (simp add: sectorInfo_def in_sector_def)
next
  case (snoc p ps)
  show ?case
  proof (cases "sector p = k")
    case False
    with snoc show ?thesis
      by (simp add: sectorInfo_snoc sectorInfo_step_def in_sector_def Let_def)
  next
    case True
    show ?thesis
    proof (cases "in_sector k ps = []")
      case True
      with \<open>sector p = k\<close> snoc show ?thesis
        by (simp add: sectorInfo_snoc sectorInfo_step_def in_sector_def Let_def)
    next
      case False
      then have "Max (insert (timestamp p) (timestamp ` set (in_sector k ps))) =
                 max (timestamp p) (Max (timestamp ` set (in_sector k ps)))"
        by (intro Max_insert) simp_all
      with \<open>sector p = k\<close> False snoc show ?thesis
        by (simp add: sectorInfo_snoc sectorInfo_step_def in_sector_def Let_def max.commute)
    qed
  qed
qed

lemma sorted_hd_Min:
  fixes xs :: "real list"
  shows "sorted xs \<Longrightarrow> xs \<noteq> [] \<Longrightarrow> hd xs = Min (set xs)"
  by (cases xs) (auto intro!: Min_eqI [symmetric])

lemma in_sector_sorted:
  "sorted (map timestamp ps) \<Longrightarrow> sorted (map timestamp (in_sector k ps))"
  unfolding in_sector_def by (rule sorted_filter)

text \<open>
  C5: for a list of points ordered by timestamp, \<^verbatim>\<open>sectorInfo\<close> has an entry for exactly
  the sectors that occur in the list; the duration of each is the largest minus the
  smallest timestamp among the points of that sector; a sector with exactly one point has
  an entry and the duration 0; a sector that does not occur has no entry.
\<close>

theorem sectorInfo_durations:
  "sorted (map timestamp ps) \<Longrightarrow>
     dom (sectorInfo ps) = sector ` set ps \<and>
     (\<forall>k \<in> sector ` set ps.
        duration (sectorInfo ps) k =
          Max (timestamp ` set (in_sector k ps)) - Min (timestamp ` set (in_sector k ps))) \<and>
     (\<forall>k. length (in_sector k ps) = 1 \<longrightarrow>
        k \<in> dom (sectorInfo ps) \<and> duration (sectorInfo ps) k = 0)"
proof (intro conjI ballI allI impI)
  assume s: "sorted (map timestamp ps)"
  have ne: "in_sector k ps \<noteq> [] \<longleftrightarrow> k \<in> sector ` set ps" for k
    by (auto simp: in_sector_def filter_empty_conv)
  show d: "dom (sectorInfo ps) = sector ` set ps"
    using ne by (auto simp: dom_def sectorInfo_first_max)
  have dur: "duration (sectorInfo ps) k =
          Max (timestamp ` set (in_sector k ps)) - Min (timestamp ` set (in_sector k ps))"
    if "k \<in> sector ` set ps" for k
  proof -
    from that ne have n: "in_sector k ps \<noteq> []" by simp
    with sorted_hd_Min [OF in_sector_sorted [OF s, of k]]
    have "timestamp (hd (in_sector k ps)) = Min (timestamp ` set (in_sector k ps))"
      by (simp add: hd_map)
    with n show ?thesis by (simp add: duration_def sectorInfo_first_max)
  qed
  then show "duration (sectorInfo ps) k =
          Max (timestamp ` set (in_sector k ps)) - Min (timestamp ` set (in_sector k ps))"
    if "k \<in> sector ` set ps" for k using that .
  fix k assume one: "length (in_sector k ps) = 1"
  then obtain p where p: "in_sector k ps = [p]"
    by (cases "in_sector k ps") auto
  then have "k \<in> sector ` set ps" using ne [of k] by simp
  with d show "k \<in> dom (sectorInfo ps)" by simp
  from p show "duration (sectorInfo ps) k = 0"
    by (simp add: duration_def sectorInfo_first_max)
qed

theorem sectorInfo_durations_witness:
  "sorted (map timestamp lap_points) \<and>
   dom (sectorInfo lap_points) = {1, 2, 3} \<and>
   duration (sectorInfo lap_points) 1 = 29.125 \<and>
   length (in_sector 2 lap_points) = 1 \<and>
   2 \<in> dom (sectorInfo lap_points) \<and> duration (sectorInfo lap_points) 2 = 0 \<and>
   duration (sectorInfo lap_points) 3 = 28.25 \<and>
   sectorInfo lap_points 4 = None"
proof -
  have s: "sorted (map timestamp lap_points)"
    by (simp add: lap_points_def point_def)
  have one: "length (in_sector 2 lap_points) = 1"
    by (simp add: lap_points_def point_def in_sector_def)
  have img: "sector ` set lap_points = {1, 2, 3}"
    by (auto simp: lap_points_def point_def)
  note t = sectorInfo_durations [OF s]
  from t img have d: "dom (sectorInfo lap_points) = {1, 2, 3}"
    by simp
  from t img have "duration (sectorInfo lap_points) 1 =
      Max (timestamp ` set (in_sector 1 lap_points)) -
      Min (timestamp ` set (in_sector 1 lap_points))"
    by simp
  then have d1: "duration (sectorInfo lap_points) 1 = 29.125"
    by (simp add: lap_points_def point_def in_sector_def)
  from t one have d2: "2 \<in> dom (sectorInfo lap_points) \<and> duration (sectorInfo lap_points) 2 = 0"
    by blast
  from t img have "duration (sectorInfo lap_points) 3 =
      Max (timestamp ` set (in_sector 3 lap_points)) -
      Min (timestamp ` set (in_sector 3 lap_points))"
    by simp
  then have d3: "duration (sectorInfo lap_points) 3 = 28.25"
    by (simp add: lap_points_def point_def in_sector_def)
  from d have "4 \<notin> dom (sectorInfo lap_points)" by simp
  then have n4: "sectorInfo lap_points 4 = None" by (simp add: domIff)
  from s d d1 one d2 d3 n4 show ?thesis by blast
qed

section \<open>Properties of the specified score\<close>

lemma penalties_sum:
  "5 * real (length ms) + (\<Sum>m\<leftarrow>ms. severity_penalty (severity m)) =
   (\<Sum>m\<leftarrow>ms. 5 + (case severity m of low \<Rightarrow> 1 | medium \<Rightarrow> 3 | high \<Rightarrow> 6))"
proof (induction ms)
  case Nil
  then show ?case by simp
next
  case (Cons m ms)
  then show ?case by (cases "severity m") simp_all
qed

lemma severity_penalty_nonneg: "0 \<le> severity_penalty s"
  by (cases s) simp_all

text \<open>
  C1: for positive actual and predicted lap times and any list of mistakes, the score is
  \<open>100 - (|actual - predicted| / predicted * 100) * 20\<close> minus the sum over the mistakes
  of 5 plus the severity bonus (1 for low, 3 for medium, 6 for high), clamped to
  \<open>[0, 100]\<close>; so the score always lies between 0 and 100.
\<close>

theorem performance_score_formula:
  "0 < actual \<Longrightarrow> 0 < predicted \<Longrightarrow>
     performance_score actual predicted ms =
       max 0 (min 100 (100 - (\<bar>actual - predicted\<bar> / predicted * 100) * 20 -
         (\<Sum>m\<leftarrow>ms. 5 + (case severity m of low \<Rightarrow> 1 | medium \<Rightarrow> 3 | high \<Rightarrow> 6)))) \<and>
     0 \<le> performance_score actual predicted ms \<and>
     performance_score actual predicted ms \<le> 100"
  by (simp add: performance_score_def Let_def penalties_sum)

theorem performance_score_formula_witness:
  "(0 :: real) < 101 \<and> (0 :: real) < 100 \<and>
   performance_score 101 100 [mistake low, mistake high] = 63 \<and>
   0 \<le> performance_score 101 100 [mistake low, mistake high] \<and>
   performance_score 101 100 [mistake low, mistake high] \<le> 100 \<and>
   performance_score 200 100 [mistake low, mistake high] = 0 \<and>
   performance_score 100 100 [] = 100"
proof -
  have "performance_score 101 100 [mistake low, mistake high] = 63"
    using performance_score_formula [of 101 100 "[mistake low, mistake high]"]
    by (simp add: mistake_def)
  moreover have "performance_score 200 100 [mistake low, mistake high] = 0"
    using performance_score_formula [of 200 100 "[mistake low, mistake high]"]
    by (simp add: mistake_def)
  moreover have "performance_score 100 100 [] = 100"
    using performance_score_formula [of 100 100 "[]"] by simp
  ultimately show ?thesis by simp
qed

text \<open>
  C2: for a positive predicted lap time, appending one more mistake of any severity never
  raises the score, and with the mistakes fixed a larger \<open>|actual - predicted|\<close> never
  raises it.
\<close>

theorem performance_score_monotone:
  "0 < predicted \<Longrightarrow>
     performance_score actual predicted (ms @ [m]) \<le> performance_score actual predicted ms \<and>
     (\<bar>actual - predicted\<bar> \<le> \<bar>actual' - predicted\<bar> \<longrightarrow>
        performance_score actual' predicted ms \<le> performance_score actual predicted ms)"
proof (intro conjI impI)
  assume p: "0 < predicted"
  have "0 \<le> severity_penalty (severity m)" by (rule severity_penalty_nonneg)
  then show "performance_score actual predicted (ms @ [m]) \<le> performance_score actual predicted ms"
    by (simp add: performance_score_def Let_def)
  assume "\<bar>actual - predicted\<bar> \<le> \<bar>actual' - predicted\<bar>"
  with p have "\<bar>actual - predicted\<bar> / predicted \<le> \<bar>actual' - predicted\<bar> / predicted"
    by (simp add: divide_right_mono)
  then show "performance_score actual' predicted ms \<le> performance_score actual predicted ms"
    by (simp add: performance_score_def Let_def)
qed

theorem performance_score_monotone_witness:
  "(0 :: real) < 100 \<and>
   performance_score 101 100 ([mistake low] @ [mistake high]) \<le>
     performance_score 101 100 [mistake low] \<and>
   \<bar>101 - 100 :: real\<bar> \<le> \<bar>98 - 100\<bar> \<and>
   performance_score 98 100 [mistake low] \<le> performance_score 101 100 [mistake low] \<and>
   performance_score 101 100 [mistake low] = 74 \<and>
   performance_score 98 100 [mistake low] = 54"
proof -
  have "performance_score 101 100 [mistake low] = 74"
    and "performance_score 98 100 [mistake low] = 54"
    by (simp_all add: performance_score_def mistake_def)
  with performance_score_monotone [of 100 101 "[mistake low]" "mistake high" 98]
  show ?thesis by simp
qed

section \<open>The specified data-availability errors\<close>

lemma recorded_lap_time_None:
  "recorded_lap_time samples actual = None \<longleftrightarrow>
     actual = None \<and> (\<forall>p \<in> set samples. lap_time p = None)"
proof -
  have "List.map_filter lap_time samples = [] \<longleftrightarrow> (\<forall>p \<in> set samples. lap_time p = None)"
    by (induction samples) (auto simp: List.map_filter_simps split: option.splits)
  then show ?thesis
    by (auto simp: recorded_lap_time_def split: option.splits list.splits)
qed

text \<open>
  C6: \<open>analyze\<close> fails with \<open>EmptyLapData\<close> on an empty sample list and with
  \<open>MissingLapTime\<close>, a bad-request error, when there are samples but neither they nor the
  caller give a lap time; with samples and a lap time it runs the pipeline. The boundary
  gives \<open>LapNotFound\<close>, a not-found error, for a lap the store does not know, which is
  another error than the \<open>EmptyLapData\<close> of a known lap without samples.
\<close>

theorem analyze_errors:
  "(samples = [] \<longrightarrow> analyze pipeline lap samples actual = Inl EmptyLapData) \<and>
   (samples \<noteq> [] \<and> actual = None \<and> (\<forall>p \<in> set samples. lap_time p = None) \<longrightarrow>
      analyze pipeline lap samples actual = Inl MissingLapTime) \<and>
   (samples \<noteq> [] \<and> (actual \<noteq> None \<or> (\<exists>p \<in> set samples. lap_time p \<noteq> None)) \<longrightarrow>
      (\<exists>t. recorded_lap_time samples actual = Some t \<and>
           analyze pipeline lap samples actual = pipeline lap samples t)) \<and>
   (store lap = None \<longrightarrow> analysis_of_lap pipeline store lap actual = Inl LapNotFound) \<and>
   (store lap = Some [] \<longrightarrow> analysis_of_lap pipeline store lap actual = Inl EmptyLapData) \<and>
   error_class_of LapNotFound = not_found \<and>
   error_class_of MissingLapTime = bad_request \<and>
   error_class_of EmptyLapData \<noteq> not_found \<and>
   distinct [LapNotFound, EmptyLapData, MissingLapTime]"
proof -
  have "samples \<noteq> [] \<and> actual = None \<and> (\<forall>p \<in> set samples. lap_time p = None) \<longrightarrow>
      analyze pipeline lap samples actual = Inl MissingLapTime"
    using recorded_lap_time_None [of samples actual] by (auto simp: analyze_def)
  moreover have "samples \<noteq> [] \<and> (actual \<noteq> None \<or> (\<exists>p \<in> set samples. lap_time p \<noteq> None)) \<longrightarrow>
      (\<exists>t. recorded_lap_time samples actual = Some t \<and>
           analyze pipeline lap samples actual = pipeline lap samples t)"
    using recorded_lap_time_None [of samples actual]
    by (cases "recorded_lap_time samples actual") (auto simp: analyze_def)
  ultimately show ?thesis
    by (simp add: analyze_def analysis_of_lap_def)
qed

theorem analyze_errors_witness:
  "analyze pass_lap_time 12 [] None = Inl EmptyLapData \<and>
   analyze pass_lap_time 12 [] (Some 88) = Inl EmptyLapData \<and>
   analyze pass_lap_time 12 [point 1 0, point 1 14.5] None = Inl MissingLapTime \<and>
   analyze pass_lap_time 12 [point 1 0, point 1 14.5] (Some 88) = Inr 88 \<and>
   analysis_of_lap pass_lap_time Map.empty 12 None = Inl LapNotFound \<and>
   analysis_of_lap pass_lap_time [12 \<mapsto> []] 12 None = Inl EmptyLapData"
proof -
  have "analyze pass_lap_time 12 [] None = Inl EmptyLapData"
    using analyze_errors [of "[]" pass_lap_time 12 None] by simp
  moreover have "analyze pass_lap_time 12 [] (Some 88) = Inl EmptyLapData"
    using analyze_errors [of "[]" pass_lap_time 12 "Some 88"] by simp
  moreover have "analyze pass_lap_time 12 [point 1 0, point 1 14.5] None = Inl MissingLapTime"
    using analyze_errors [of "[point 1 0, point 1 14.5]" pass_lap_time 12 None]
    by (simp add: point_def)
  moreover have "analyze pass_lap_time 12 [point 1 0, point 1 14.5] (Some 88) = Inr 88"
    using analyze_errors [of "[point 1 0, point 1 14.5]" pass_lap_time 12 "Some 88" Map.empty]
    by (auto simp: recorded_lap_time_def pass_lap_time_def)
  moreover have "analysis_of_lap pass_lap_time Map.empty 12 None = Inl LapNotFound"
    using analyze_errors [of _ pass_lap_time 12 None Map.empty] by simp
  moreover have "analysis_of_lap pass_lap_time [12 \<mapsto> []] 12 None = Inl EmptyLapData"
    using analyze_errors [of _ pass_lap_time 12 None "[12 \<mapsto> []]"] by simp
  ultimately show ?thesis by blast
qed

end
